theory Spec2Isabelle
  imports Main "HOL-Library.Sublist" "HOL-Library.Char_ord" "HOL-Library.List_Lexorder"
    "HOL-Library.Multiset"
begin

section \<open>PDF ingestion: a model of \<^verbatim>\<open>pdf_ingestion.py\<close>\<close>

text \<open>
  The script lists the PDF files of a directory, extracts the text of every page through
  PyPDF2 and upserts one row per page into the SQLite table \<^verbatim>\<open>pdf_pages\<close>.
  The file system, the PDF library and SQLite are outside the script; they appear here as
  an explicit world that every function reads and returns.
\<close>

subsection \<open>Python values\<close>

text \<open>
  A \<^verbatim>\<open>pathlib.Path\<close> is the list of its components. Paths compare by their
  component lists, strings by their characters, both lexicographically, which is the order
  \<^verbatim>\<open>sorted\<close> uses.
\<close>

type_synonym path = "string list"

definition path_name :: "path \<Rightarrow> string" where
  "path_name p = (if p = [] then [] else last p)"

text \<open>
  \<^verbatim>\<open>str.strip()\<close> removes the leading and the trailing whitespace. A character
  stands for the code point of its number; the whitespace code points below 256 are
  9 to 13, 28 to 32, 133 and 160.
\<close>

definition isspace :: "char \<Rightarrow> bool" where
  "isspace c = ((of_char c :: nat) \<in> set [9, 10, 11, 12, 13, 28, 29, 30, 31, 32, 133, 160])"

definition lstrip :: "string \<Rightarrow> string" where
  "lstrip s = dropWhile isspace s"

definition rstrip :: "string \<Rightarrow> string" where
  "rstrip s = rev (dropWhile isspace (rev s))"

definition strip :: "string \<Rightarrow> string" where
  "strip s = rstrip (lstrip s)"

text \<open>\<^verbatim>\<open>xs[:stop]\<close>: a negative \<^verbatim>\<open>stop\<close> counts from the end of the list.\<close>

definition py_slice_to :: "'a list \<Rightarrow> int \<Rightarrow> 'a list" where
  "py_slice_to xs stop =
     (if stop < 0 then take (nat (int (length xs) + stop)) xs else take (nat stop) xs)"

text \<open>\<^verbatim>\<open>text or ""\<close>: \<^verbatim>\<open>None\<close> and the empty string both give the empty string.\<close>

definition or_empty :: "string option \<Rightarrow> string" where
  "or_empty text = (case text of None \<Rightarrow> [] | Some t \<Rightarrow> (if t = [] then [] else t))"

subsection \<open>The world\<close>

text \<open>
  A page of a parsed document either has text, or \<^verbatim>\<open>extract_text\<close> returns
  nothing for it, or \<^verbatim>\<open>extract_text\<close> raises. A regular file either parses as a
  PDF document, which is then the list of its pages, or \<^verbatim>\<open>PdfReader\<close> raises on it.
\<close>

datatype page = Text string | NoText | Unextractable

datatype file_body = Pdf "page list" | NotPdf

datatype node = Directory "string list" | RegularFile file_body

text \<open>
  A row of \<^verbatim>\<open>pdf_pages\<close> is \<^verbatim>\<open>(file_name, page_number, content)\<close>; the column
  \<^verbatim>\<open>content\<close> is nullable. A table is the list of its rows, so that a duplicated key
  is expressible. A database file either has the table or does not have it yet.
\<close>

type_synonym row = "string \<times> int \<times> string option"

type_synonym table = "row list"

type_synonym database = "table option"

type_synonym page_record = "string \<times> int \<times> string"

datatype error = FileNotFoundError | NotADirectoryError | ReaderError | DatabaseError

text \<open>
  The storage engine may fail once during a call of the store writer: when the database
  is opened, when the table is created, at the insertion of the record with a given
  index, or at the commit.
\<close>

datatype fault = NoFault | ConnectFails | CreateFails | InsertFails nat | CommitFails

text \<open>
  What the model takes from its surroundings:
  \<^item> file names are matched and compared as on a POSIX system, by exact characters;
  \<^item> database files are kept apart from the files that are scanned, so that a database
    is never itself listed as a PDF file;
  \<^item> a table \<^verbatim>\<open>pdf_pages\<close> that a database file already has was created by the
    statement of this script, with its columns and its primary key;
  \<^item> page numbers stay within the 64-bit integers of SQLite, as any real page count does.
\<close>

text \<open>The calls that leave the script, in the order they are made.\<close>

datatype event = Listed path | Opened path | DbConnect path | Printed

record world =
  fs :: "path \<Rightarrow> node option"
  dbs :: "path \<Rightarrow> database option"
  db_fault :: fault
  trace :: "event list"

definition log_event :: "event \<Rightarrow> world \<Rightarrow> world" where
  "log_event e w = w\<lparr>trace := trace w @ [e]\<rparr>"

definition path_exists :: "world \<Rightarrow> path \<Rightarrow> bool" where
  "path_exists w p = (case fs w p of None \<Rightarrow> False | Some _ \<Rightarrow> True)"

definition is_dir :: "world \<Rightarrow> path \<Rightarrow> bool" where
  "is_dir w p = (case fs w p of Some (Directory _) \<Rightarrow> True | _ \<Rightarrow> False)"

text \<open>
  \<^verbatim>\<open>source_dir.glob("*.pdf")\<close>: the entries of the directory whose name ends in
  \<^verbatim>\<open>.pdf\<close>, each joined to the directory, in the order the system lists them;
  nothing when the path is not a directory.
\<close>

definition matches_pdf :: "string \<Rightarrow> bool" where
  "matches_pdf n = suffix ''.pdf'' n"

definition glob_pdf :: "world \<Rightarrow> path \<Rightarrow> path list" where
  "glob_pdf w source_dir =
     (case fs w source_dir of
        Some (Directory names) \<Rightarrow> map (\<lambda>n. source_dir @ [n]) (filter matches_pdf names)
      | _ \<Rightarrow> [])"

subsection \<open>File lister\<close>

definition collect_pdf_files :: "path \<Rightarrow> int \<Rightarrow> world \<Rightarrow> path list \<times> world" where
  "collect_pdf_files source_dir limit w =
     (let pdf_files = sort (glob_pdf w source_dir)
      in (py_slice_to pdf_files limit, log_event (Listed source_dir) w))"

subsection \<open>Page extractor\<close>

definition extract_text :: "page \<Rightarrow> error + string option" where
  "extract_text pg =
     (case pg of Text t \<Rightarrow> Inr (Some t) | NoText \<Rightarrow> Inr None | Unextractable \<Rightarrow> Inl ReaderError)"

text \<open>The loop over \<^verbatim>\<open>enumerate(reader.pages, start=1)\<close>.\<close>

fun enumerate_pages :: "int \<Rightarrow> page list \<Rightarrow> error + (int \<times> string) list" where
  "enumerate_pages index [] = Inr []"
| "enumerate_pages index (pg # pgs) =
     (case extract_text pg of
        Inl e \<Rightarrow> Inl e
      | Inr text \<Rightarrow>
          (case enumerate_pages (index + 1) pgs of
             Inl e \<Rightarrow> Inl e
           | Inr rest \<Rightarrow> Inr ((index, strip (or_empty text)) # rest)))"

definition PdfReader :: "world \<Rightarrow> path \<Rightarrow> error + page list" where
  "PdfReader w pdf_path =
     (case fs w pdf_path of
        Some (RegularFile (Pdf pgs)) \<Rightarrow> Inr pgs
      | _ \<Rightarrow> Inl ReaderError)"

definition extract_pages :: "path \<Rightarrow> world \<Rightarrow> (error + (int \<times> string) list) \<times> world" where
  "extract_pages pdf_path w =
     (let w' = log_event (Opened pdf_path) w
      in case PdfReader w pdf_path of
           Inl e \<Rightarrow> (Inl e, w')
         | Inr pgs \<Rightarrow> (enumerate_pages 1 pgs, w'))"

subsection \<open>Store writer\<close>

definition row_key :: "row \<Rightarrow> string \<times> int" where
  "row_key r = (case r of (file_name, page_number, content) \<Rightarrow> (file_name, page_number))"

text \<open>
  \<^verbatim>\<open>INSERT OR REPLACE\<close>: the rows that hold the primary key of the new row are
  deleted, then the new row is inserted.
\<close>

definition insert_or_replace :: "page_record \<Rightarrow> table \<Rightarrow> table" where
  "insert_or_replace rec t =
     (case rec of (file_name, page_number, content) \<Rightarrow>
        filter (\<lambda>r. row_key r \<noteq> (file_name, page_number)) t
          @ [(file_name, page_number, Some content)])"

fun executemany :: "fault \<Rightarrow> nat \<Rightarrow> page_record list \<Rightarrow> table \<Rightarrow> error + table" where
  "executemany f i [] t = Inr t"
| "executemany f i (rec # recs) t =
     (if f = InsertFails i then Inl DatabaseError
      else executemany f (Suc i) recs (insert_or_replace rec t))"

text \<open>\<^verbatim>\<open>CREATE TABLE IF NOT EXISTS\<close> leaves a table that is there as it is.\<close>

definition create_table_if_not_exists :: "database \<Rightarrow> table" where
  "create_table_if_not_exists d = (case d of None \<Rightarrow> [] | Some t \<Rightarrow> t)"

text \<open>
  \<^verbatim>\<open>sqlite3.connect\<close> creates the database file when there is none. The
  \<^verbatim>\<open>CREATE TABLE\<close> statement runs outside a transaction and is kept whatever
  follows. \<^verbatim>\<open>executemany\<close> opens a transaction; the \<^verbatim>\<open>with\<close> block commits
  it when the block ends normally and rolls it back when the block raises.
\<close>

definition store_pages_in_db :: "page_record list \<Rightarrow> path \<Rightarrow> world \<Rightarrow> (error + unit) \<times> world" where
  "store_pages_in_db records db_path w =
     (let w1 = log_event (DbConnect db_path) w
      in if db_fault w = ConnectFails then (Inl DatabaseError, w1)
         else
           let d0 = (case dbs w db_path of None \<Rightarrow> None | Some d \<Rightarrow> d)
           in if db_fault w = CreateFails
              then (Inl DatabaseError, w1\<lparr>dbs := (dbs w1)(db_path \<mapsto> d0)\<rparr>)
              else
                let t0 = create_table_if_not_exists d0;
                    rolled_back = w1\<lparr>dbs := (dbs w1)(db_path \<mapsto> Some t0)\<rparr>
                in case executemany (db_fault w) 0 records t0 of
                     Inl e \<Rightarrow> (Inl e, rolled_back)
                   | Inr t1 \<Rightarrow>
                       if db_fault w = CommitFails then (Inl DatabaseError, rolled_back)
                       else (Inr (), w1\<lparr>dbs := (dbs w1)(db_path \<mapsto> Some t1)\<rparr>))"

subsection \<open>Orchestrator\<close>

text \<open>The two nested loops of \<^verbatim>\<open>ingest_pdfs\<close> that fill \<^verbatim>\<open>records\<close>.\<close>

fun ingest_loop :: "path list \<Rightarrow> page_record list \<Rightarrow> world \<Rightarrow> (error + page_record list) \<times> world" where
  "ingest_loop [] records w = (Inr records, w)"
| "ingest_loop (pdf_file # pdf_files) records w =
     (case extract_pages pdf_file w of
        (Inl e, w') \<Rightarrow> (Inl e, w')
      | (Inr pages, w') \<Rightarrow>
          ingest_loop pdf_files
            (records @ map (\<lambda>(page_number, content). (path_name pdf_file, page_number, content)) pages)
            w')"

definition ingest_pdfs :: "path \<Rightarrow> path \<Rightarrow> int \<Rightarrow> world \<Rightarrow> (error + unit) \<times> world" where
  "ingest_pdfs source_dir db_path limit w =
     (case collect_pdf_files source_dir limit w of
        (pdf_files, w1) \<Rightarrow>
          if pdf_files = [] then (Inl FileNotFoundError, w1)
          else
            (case ingest_loop pdf_files [] w1 of
               (Inl e, w2) \<Rightarrow> (Inl e, w2)
             | (Inr records, w2) \<Rightarrow> store_pages_in_db records db_path w2))"

subsection \<open>Command line\<close>

record args =
  args_source_dir :: path
  args_db_path :: path
  args_limit :: int

definition main :: "args \<Rightarrow> world \<Rightarrow> (error + unit) \<times> world" where
  "main a w =
     (if \<not> path_exists w (args_source_dir a) \<or> \<not> is_dir w (args_source_dir a)
      then (Inl NotADirectoryError, w)
      else
        (case ingest_pdfs (args_source_dir a) (args_db_path a) (args_limit a) w of
           (Inl e, w') \<Rightarrow> (Inl e, w')
         | (Inr u, w') \<Rightarrow> (Inr (), log_event Printed w')))"

text \<open>An exception that reaches the top level ends the process with status 1.\<close>

definition exit_status :: "error + unit \<Rightarrow> int" where
  "exit_status r = (case r of Inl e \<Rightarrow> 1 | Inr u \<Rightarrow> 0)"

subsection \<open>Observing the result\<close>

text \<open>
  What a page contributes: its text, or the empty string, stripped. The rows a database
  file holds (none when the file or the table is missing), the query
  \<^verbatim>\<open>SELECT content FROM pdf_pages WHERE file_name = ? AND page_number = ?\<close>,
  and the constraint \<^verbatim>\<open>PRIMARY KEY (file_name, page_number)\<close>.
\<close>

definition page_content :: "page \<Rightarrow> string" where
  "page_content pg = strip (case pg of Text t \<Rightarrow> t | _ \<Rightarrow> [])"

definition stored_rows :: "world \<Rightarrow> path \<Rightarrow> table" where
  "stored_rows w db_path = (case dbs w db_path of Some (Some t) \<Rightarrow> t | _ \<Rightarrow> [])"

definition select_content :: "table \<Rightarrow> string \<times> int \<Rightarrow> string option list" where
  "select_content t k = map (\<lambda>r. snd (snd r)) (filter (\<lambda>r. row_key r = k) t)"

definition primary_key_holds :: "table \<Rightarrow> bool" where
  "primary_key_holds t = distinct (map row_key t)"

definition record_key :: "page_record \<Rightarrow> string \<times> int" where
  "record_key rec = (case rec of (file_name, page_number, content) \<Rightarrow> (file_name, page_number))"

text \<open>
  The content that the last record with a given key carries, if there is such a record,
  and the records that a list of files contributes: those of each file that can be
  extracted, tagged with the name of the file, in order.
\<close>

definition last_content :: "page_record list \<Rightarrow> string \<times> int \<Rightarrow> string option" where
  "last_content records k = map_of (rev (map (\<lambda>rec. (record_key rec, snd (snd rec))) records)) k"

definition extractable :: "world \<Rightarrow> path \<Rightarrow> bool" where
  "extractable w pdf_file = (case fst (extract_pages pdf_file w) of Inl e \<Rightarrow> False | Inr ps \<Rightarrow> True)"

definition batch_of :: "world \<Rightarrow> path list \<Rightarrow> page_record list" where
  "batch_of w pdf_files =
     concat (map (\<lambda>pdf_file.
       case fst (extract_pages pdf_file w) of
         Inl e \<Rightarrow> []
       | Inr ps \<Rightarrow> map (\<lambda>(page_number, content). (path_name pdf_file, page_number, content)) ps)
       pdf_files)"

text \<open>
  Whether the storage engine fails during a call of the store writer with \<open>n\<close>
  records: a fault at the insertion of a record that the call does not reach is no
  failure.
\<close>

definition engine_fails :: "fault \<Rightarrow> nat \<Rightarrow> bool" where
  "engine_fails f n = (case f of NoFault \<Rightarrow> False | InsertFails j \<Rightarrow> j < n | _ \<Rightarrow> True)"

text \<open>
  A small world for concrete runs: the directory \<^verbatim>\<open>docs\<close> holds two PDF files
  and a text file, listed out of order, the directory \<^verbatim>\<open>inbox\<close> holds no PDF
  file, and no database exists yet.
\<close>

definition demo_fs :: "path \<Rightarrow> node option" where
  "demo_fs =
     [[''docs''] \<mapsto> Directory [''b.pdf'', ''notes.txt'', ''a.pdf''],
      [''docs'', ''a.pdf''] \<mapsto> RegularFile (Pdf [Text ''  hello '', NoText]),
      [''docs'', ''b.pdf''] \<mapsto> RegularFile (Pdf [Text ''x'']),
      [''docs'', ''notes.txt''] \<mapsto> RegularFile NotPdf,
      [''inbox''] \<mapsto> Directory [''readme.txt''],
      [''inbox'', ''readme.txt''] \<mapsto> RegularFile NotPdf]"

definition demo_world :: world where
  "demo_world = \<lparr>fs = demo_fs, dbs = Map.empty, db_fault = NoFault, trace = []\<rparr>"

text \<open>The same world with a second page in \<^verbatim>\<open>b.pdf\<close> whose text cannot be extracted.\<close>

definition damaged_world :: world where
  "damaged_world =
     demo_world\<lparr>fs := demo_fs([''docs'', ''b.pdf''] \<mapsto> RegularFile (Pdf [Text ''x'', Unextractable]))\<rparr>"

definition demo_records :: "page_record list" where
  "demo_records = [(''a.pdf'', 1, ''hello''), (''a.pdf'', 2, ''''), (''a.pdf'', 1, ''again'')]"

section \<open>Basic facts\<close>

lemma fs_log_event [simp]: "fs (log_event e w) = fs w"
  and dbs_log_event [simp]: "dbs (log_event e w) = dbs w"
  and db_fault_log_event [simp]: "db_fault (log_event e w) = db_fault w"
  and trace_log_event [simp]: "trace (log_event e w) = trace w @ [e]"
  by (simp_all add: log_event_def)

subsection \<open>Stripping\<close>

lemma lstrip_Nil [simp]: "lstrip [] = []"
  by (simp add: lstrip_def)

lemma rstrip_Nil [simp]: "rstrip [] = []"
  by (simp add: rstrip_def)

lemma lstrip_Cons_nonspace: "\<not> isspace c \<Longrightarrow> lstrip (c # s) = c # s"
  by (simp add: lstrip_def)

lemma rstrip_Cons_nonspace: "\<not> isspace c \<Longrightarrow> rstrip (c # s) = c # rstrip s"
  by (simp add: rstrip_def dropWhile_append)

lemma rstrip_rstrip: "rstrip (rstrip s) = rstrip s"
  by (simp add: rstrip_def)

lemma lstrip_cases: "lstrip s = [] \<or> (\<exists>c t. lstrip s = c # t \<and> \<not> isspace c)"
proof (cases "lstrip s")
  case Nil
  then show ?thesis by simp
next
  case (Cons c t)
  then have "dropWhile isspace s \<noteq> []"
    by (simp add: lstrip_def)
  then have "\<not> isspace (hd (dropWhile isspace s))"
    by (rule hd_dropWhile)
  with Cons show ?thesis by (simp add: lstrip_def)
qed

lemma lstrip_strip: "lstrip (strip s) = strip s"
  using lstrip_cases [of s]
  by (auto simp: strip_def rstrip_Cons_nonspace lstrip_Cons_nonspace)

lemma strip_strip: "strip (strip s) = strip s"
proof -
  have "strip (strip s) = rstrip (strip s)"
    by (simp add: strip_def [of "strip s"] lstrip_strip)
  also have "\<dots> = strip s"
    by (simp add: strip_def rstrip_rstrip)
  finally show ?thesis .
qed

subsection \<open>The page loop\<close>

lemma extract_text_cases:
  "extract_text pg = (if pg = Unextractable then Inl ReaderError
     else Inr (case pg of Text t \<Rightarrow> Some t | _ \<Rightarrow> None))"
  by (cases pg) (simp_all add: extract_text_def)

lemma enumerate_pages_Inr:
  "Unextractable \<notin> set pgs \<Longrightarrow>
   enumerate_pages i pgs = Inr (zip [i..i + int (length pgs) - 1] (map page_content pgs))"
proof (induction pgs arbitrary: i)
  case Nil
  then show ?case by simp
next
  case (Cons pg pgs)
  have "[i..i + int (length (pg # pgs)) - 1] = i # [i + 1..i + 1 + int (length pgs) - 1]"
    by (simp add: upto_rec1)
  with Cons show ?case
    by (cases pg) (auto simp: extract_text_def or_empty_def page_content_def)
qed

lemma enumerate_pages_Inl:
  "Unextractable \<in> set pgs \<Longrightarrow> enumerate_pages i pgs = Inl ReaderError"
  by (induction pgs arbitrary: i) (auto simp: extract_text_cases split: sum.splits)

lemma enumerate_pages_stripped:
  "enumerate_pages i pgs = Inr ps \<Longrightarrow> (n, c) \<in> set ps \<Longrightarrow> strip c = c"
  by (induction pgs arbitrary: i ps) (auto simp: strip_strip split: sum.splits)

lemma extract_pages_fs:
  "fs w2 pdf_path = fs w pdf_path \<Longrightarrow>
   fst (extract_pages pdf_path w2) = fst (extract_pages pdf_path w)"
  by (simp add: extract_pages_def PdfReader_def Let_def split: sum.splits)

lemma extract_pages_snd [simp]: "snd (extract_pages pdf_path w) = log_event (Opened pdf_path) w"
  by (simp add: extract_pages_def Let_def split: sum.splits)

section \<open>Page extractor: every page once, in order\<close>

text \<open>
  C4. For a file that parses as a PDF document of \<open>n\<close> pages, each of which yields to
  text extraction, \<^verbatim>\<open>extract_pages\<close> returns \<open>n\<close> pairs, numbered 1 to \<open>n\<close>
  in the order of the pages, each with the stripped content of its page; and a further
  call in any world where the file is the same returns the same sequence.
\<close>

theorem extract_pages_complete:
  assumes "fs w pdf_path = Some (RegularFile (Pdf pgs))"
    and "Unextractable \<notin> set pgs"
  shows "\<exists>ps. fst (extract_pages pdf_path w) = Inr ps \<and>
           length ps = length pgs \<and>
           map fst ps = [1..int (length pgs)] \<and>
           map snd ps = map page_content pgs \<and>
           (\<forall>w2. fs w2 pdf_path = fs w pdf_path \<longrightarrow> fst (extract_pages pdf_path w2) = Inr ps)"
proof -
  let ?ps = "zip [1..int (length pgs)] (map page_content pgs)"
  have e: "enumerate_pages 1 pgs = Inr ?ps"
    using enumerate_pages_Inr [OF assms(2), of 1] by simp
  have "fst (extract_pages pdf_path w2) = Inr ?ps" if "fs w2 pdf_path = fs w pdf_path" for w2
    using that assms(1) e by (simp add: extract_pages_def PdfReader_def Let_def)
  then show ?thesis
    by (intro exI [of _ ?ps]) simp
qed

theorem extract_pages_complete_witness:
  "fs demo_world [''docs'', ''a.pdf''] = Some (RegularFile (Pdf [Text ''  hello '', NoText])) \<and>
   Unextractable \<notin> set [Text ''  hello '', NoText] \<and>
   fst (extract_pages [''docs'', ''a.pdf''] demo_world) = Inr [(1, ''hello''), (2, '''')] \<and>
   fst (extract_pages [''docs'', ''a.pdf''] (snd (extract_pages [''docs'', ''a.pdf''] demo_world)))
     = Inr [(1, ''hello''), (2, '''')]"
proof -
  have f: "fs demo_world [''docs'', ''a.pdf''] = Some (RegularFile (Pdf [Text ''  hello '', NoText]))"
    by (simp add: demo_world_def demo_fs_def)
  have u: "Unextractable \<notin> set [Text ''  hello '', NoText]"
    by simp
  from extract_pages_complete [OF f u] obtain ps where
    ps: "fst (extract_pages [''docs'', ''a.pdf''] demo_world) = Inr ps"
      "map fst ps = [1..int (length [Text ''  hello '', NoText])]"
      "map snd ps = map page_content [Text ''  hello '', NoText]"
      "length ps = length [Text ''  hello '', NoText]"
      "\<forall>w2. fs w2 [''docs'', ''a.pdf''] = fs demo_world [''docs'', ''a.pdf''] \<longrightarrow>
         fst (extract_pages [''docs'', ''a.pdf''] w2) = Inr ps"
    by blast
  have "ps = zip (map fst ps) (map snd ps)"
    by (simp add: zip_map_fst_snd)
  also have "\<dots> = [(1, ''hello''), (2, '''')]"
    unfolding ps(2,3)
    by (simp add: page_content_def strip_def lstrip_def rstrip_def isspace_def upto_rec1)
  finally have "ps = [(1, ''hello''), (2, '''')]" .
  with ps(1) ps(5) f u show ?thesis
    by simp
qed

section \<open>File lister: the first entries in order of name\<close>

lemma path_name_join [simp]: "path_name (d @ [n]) = n"
  by (simp add: path_name_def)



lemma glob_pdf_member:
  "p \<in> set (glob_pdf w d) \<Longrightarrow> \<exists>n. p = d @ [n] \<and> matches_pdf n"
  by (auto simp: glob_pdf_def split: option.splits node.splits)


lemma py_slice_to_neg: "stop < 0 \<Longrightarrow> py_slice_to xs stop = take (length xs - nat (- stop)) xs"
proof -
  assume "stop < 0"
  then have "nat (int (length xs) + stop) = length xs - nat (- stop)"
    by linarith
  with \<open>stop < 0\<close> show ?thesis
    by (simp add: py_slice_to_def)
qed

lemma set_py_slice_to: "set (py_slice_to xs stop) \<subseteq> set xs"
  by (auto simp: py_slice_to_def dest: in_set_takeD)

lemma sorted_py_slice_to: "sorted xs \<Longrightarrow> sorted (py_slice_to xs stop)"
  by (simp add: py_slice_to_def)

lemma collect_pdf_files_fst:
  "fst (collect_pdf_files d limit w) = py_slice_to (sort (glob_pdf w d)) limit"
  by (simp add: collect_pdf_files_def Let_def)

lemma collect_pdf_files_snd [simp]:
  "snd (collect_pdf_files d limit w) = log_event (Listed d) w"
  by (simp add: collect_pdf_files_def Let_def)

lemma collect_pdf_files_member:
  "p \<in> set (fst (collect_pdf_files d limit w)) \<Longrightarrow> p \<in> set (glob_pdf w d)"
  using set_py_slice_to [of "sort (glob_pdf w d)" limit]
  by (auto simp: collect_pdf_files_fst)




section \<open>Failing before any work\<close>

lemma ingest_pdfs_empty_listing:
  "fst (collect_pdf_files source_dir limit w) = [] \<Longrightarrow>
   ingest_pdfs source_dir db_path limit w = (Inl FileNotFoundError, log_event (Listed source_dir) w)"
  by (simp add: ingest_pdfs_def collect_pdf_files_def Let_def)

text \<open>
  C7. When the file lister returns the empty list, \<^verbatim>\<open>ingest_pdfs\<close> raises
  \<^verbatim>\<open>FileNotFoundError\<close>. Listing the directory is the only call it has made:
  no file was opened, no database was opened, and every database is as it was, a
  missing one still missing.
\<close>

theorem ingest_pdfs_no_files:
  assumes "fst (collect_pdf_files source_dir limit w) = []"
  shows "ingest_pdfs source_dir db_path limit w
           = (Inl FileNotFoundError, log_event (Listed source_dir) w) \<and>
         dbs (snd (ingest_pdfs source_dir db_path limit w)) = dbs w \<and>
         trace (snd (ingest_pdfs source_dir db_path limit w)) = trace w @ [Listed source_dir]"
  using ingest_pdfs_empty_listing [OF assms] by simp

theorem ingest_pdfs_no_files_witness:
  "fst (collect_pdf_files [''inbox''] 5 demo_world) = [] \<and>
   fst (ingest_pdfs [''inbox''] [''pdf_data.db''] 5 demo_world) = Inl FileNotFoundError \<and>
   dbs (snd (ingest_pdfs [''inbox''] [''pdf_data.db''] 5 demo_world)) [''pdf_data.db''] = None \<and>
   trace (snd (ingest_pdfs [''inbox''] [''pdf_data.db''] 5 demo_world)) = [Listed [''inbox'']]"
proof -
  have e: "fst (collect_pdf_files [''inbox''] 5 demo_world) = []"
    by (simp add: collect_pdf_files_fst glob_pdf_def demo_world_def demo_fs_def py_slice_to_def
        matches_pdf_def suffix_to_prefix)
  from ingest_pdfs_no_files [OF e, of "[''pdf_data.db'']"] e show ?thesis
    by (simp add: demo_world_def)
qed

text \<open>
  C8. When the source path does not exist or is not a directory, a regular file included,
  \<^verbatim>\<open>main\<close> raises \<^verbatim>\<open>NotADirectoryError\<close> and the process ends with a
  non-zero status. The world is returned as it was: nothing was listed, opened or
  connected to.
\<close>

theorem main_rejects_invalid_source_dir:
  assumes "\<not> path_exists w (args_source_dir a) \<or> \<not> is_dir w (args_source_dir a)"
  shows "main a w = (Inl NotADirectoryError, w) \<and> exit_status (fst (main a w)) \<noteq> 0"
  using assms by (auto simp: main_def exit_status_def)

theorem main_rejects_invalid_source_dir_witness:
  "path_exists demo_world [''docs'', ''notes.txt''] \<and>
   \<not> is_dir demo_world [''docs'', ''notes.txt''] \<and>
   main \<lparr>args_source_dir = [''docs'', ''notes.txt''], args_db_path = [''pdf_data.db''], args_limit = 5\<rparr>
     demo_world = (Inl NotADirectoryError, demo_world) \<and>
   \<not> path_exists demo_world [''missing''] \<and>
   main \<lparr>args_source_dir = [''missing''], args_db_path = [''pdf_data.db''], args_limit = 5\<rparr>
     demo_world = (Inl NotADirectoryError, demo_world)"
proof -
  let ?a = "\<lparr>args_source_dir = [''docs'', ''notes.txt''], args_db_path = [''pdf_data.db''], args_limit = 5\<rparr>"
  let ?b = "\<lparr>args_source_dir = [''missing''], args_db_path = [''pdf_data.db''], args_limit = 5\<rparr>"
  have d: "\<not> is_dir demo_world [''docs'', ''notes.txt'']"
    by (simp add: is_dir_def demo_world_def demo_fs_def)
  then have h: "\<not> path_exists demo_world (args_source_dir ?a) \<or> \<not> is_dir demo_world (args_source_dir ?a)"
    by simp
  have e: "path_exists demo_world [''docs'', ''notes.txt'']"
    by (simp add: path_exists_def demo_world_def demo_fs_def)
  have m: "\<not> path_exists demo_world [''missing'']"
    by (simp add: path_exists_def demo_world_def demo_fs_def)
  then have k: "\<not> path_exists demo_world (args_source_dir ?b) \<or> \<not> is_dir demo_world (args_source_dir ?b)"
    by simp
  from main_rejects_invalid_source_dir [OF h] main_rejects_invalid_source_dir [OF k] d e m
  show ?thesis
    by simp
qed

lemma demo_listing:
  "sort (glob_pdf demo_world [''docs'']) = [[''docs'', ''a.pdf''], [''docs'', ''b.pdf'']]"
  by (simp add: glob_pdf_def demo_world_def demo_fs_def matches_pdf_def suffix_to_prefix
      less_eq_char_def less_char_def)

text \<open>
  C9. No limit is rejected. With the limit 0 the slice is empty, so
  \<^verbatim>\<open>ingest_pdfs\<close> lists the directory and raises \<^verbatim>\<open>FileNotFoundError\<close>
  whatever the directory holds. With a negative limit the slice drops that many paths
  from the end of the sorted list.
\<close>

theorem nonpositive_limit_not_validated:
  "ingest_pdfs source_dir db_path 0 w = (Inl FileNotFoundError, log_event (Listed source_dir) w) \<and>
   (limit < 0 \<longrightarrow>
      fst (collect_pdf_files source_dir limit w)
        = take (length (glob_pdf w source_dir) - nat (- limit)) (sort (glob_pdf w source_dir)))"
proof -
  have "fst (collect_pdf_files source_dir 0 w) = []"
    by (simp add: collect_pdf_files_fst py_slice_to_def)
  then have "ingest_pdfs source_dir db_path 0 w
      = (Inl FileNotFoundError, log_event (Listed source_dir) w)"
    by (rule ingest_pdfs_empty_listing)
  moreover have "fst (collect_pdf_files source_dir limit w)
      = take (length (glob_pdf w source_dir) - nat (- limit)) (sort (glob_pdf w source_dir))"
    if "limit < 0"
    using py_slice_to_neg [OF that, of "sort (glob_pdf w source_dir)"]
    by (simp add: collect_pdf_files_fst)
  ultimately show ?thesis
    by simp
qed

theorem nonpositive_limit_not_validated_witness:
  "length (glob_pdf demo_world [''docs'']) = 2 \<and>
   fst (ingest_pdfs [''docs''] [''pdf_data.db''] 0 demo_world) = Inl FileNotFoundError \<and>
   (- 1 :: int) < 0 \<and>
   fst (collect_pdf_files [''docs''] (- 1) demo_world) = [[''docs'', ''a.pdf'']]"
proof -
  have n: "(- 1 :: int) < 0"
    by simp
  have g: "length (glob_pdf demo_world [''docs'']) = 2"
    by (simp add: glob_pdf_def demo_world_def demo_fs_def matches_pdf_def suffix_to_prefix)
  from nonpositive_limit_not_validated [of "[''docs'']" "[''pdf_data.db'']" demo_world "- 1"] n g
  show ?thesis
    by (simp add: demo_listing)
qed

section \<open>Store writer: all records or none\<close>

lemma select_content_insert_or_replace:
  "select_content (insert_or_replace rec t) k
     = (if k = record_key rec then [Some (snd (snd rec))] else select_content t k)"
proof (cases rec)
  case (fields f n c)
  have "filter (\<lambda>r. row_key r = k) (filter (\<lambda>r. row_key r \<noteq> (f, n)) t)
      = (if k = (f, n) then [] else filter (\<lambda>r. row_key r = k) t)"
    by (induction t) auto
  with fields show ?thesis
    by (simp add: select_content_def insert_or_replace_def record_key_def row_key_def)
qed

lemma select_content_fold:
  "select_content (fold insert_or_replace records t) k
     = (case last_content records k of None \<Rightarrow> select_content t k | Some c \<Rightarrow> [Some c])"
proof (induction records arbitrary: t rule: rev_induct)
  case Nil
  then show ?case by (simp add: last_content_def)
next
  case (snoc rec records)
  then show ?case
    by (simp add: last_content_def select_content_insert_or_replace)
qed

lemma primary_key_insert_or_replace:
  "primary_key_holds t \<Longrightarrow> primary_key_holds (insert_or_replace rec t)"
  by (cases rec)
    (auto simp: primary_key_holds_def insert_or_replace_def row_key_def distinct_map_filter)

lemma primary_key_fold:
  "primary_key_holds t \<Longrightarrow> primary_key_holds (fold insert_or_replace records t)"
  by (induction records arbitrary: t) (simp_all add: primary_key_insert_or_replace)

lemma fold_insert_split:
  "fold insert_or_replace records t
     = filter (\<lambda>r. row_key r \<notin> record_key ` set records) t @ fold insert_or_replace records []"
proof (induction records arbitrary: t)
  case Nil
  then show ?case by simp
next
  case (Cons rec records)
  have "fold insert_or_replace (rec # records) t
      = filter (\<lambda>r. row_key r \<notin> record_key ` set records) (insert_or_replace rec t)
          @ fold insert_or_replace records []"
    using Cons.IH [of "insert_or_replace rec t"] by simp
  moreover have "fold insert_or_replace (rec # records) []
      = filter (\<lambda>r. row_key r \<notin> record_key ` set records) (insert_or_replace rec [])
          @ fold insert_or_replace records []"
    using Cons.IH [of "insert_or_replace rec []"] by simp
  moreover have "filter (\<lambda>r. row_key r \<notin> record_key ` set records) (insert_or_replace rec t)
      = filter (\<lambda>r. row_key r \<notin> record_key ` set (rec # records)) t
          @ filter (\<lambda>r. row_key r \<notin> record_key ` set records) (insert_or_replace rec [])"
    by (cases rec) (auto simp: insert_or_replace_def record_key_def intro: filter_cong)
  ultimately show ?case
    by simp
qed

lemma fold_insert_keys:
  "r \<in> set (fold insert_or_replace records t) \<Longrightarrow>
   r \<in> set t \<or> row_key r \<in> record_key ` set records"
proof (induction records arbitrary: t)
  case Nil
  then show ?case by simp
next
  case (Cons rec records)
  from Cons.prems have "r \<in> set (fold insert_or_replace records (insert_or_replace rec t))"
    by simp
  then have "r \<in> set (insert_or_replace rec t) \<or> row_key r \<in> record_key ` set records"
    by (rule Cons.IH)
  then show ?case
    by (cases rec) (auto simp: insert_or_replace_def record_key_def row_key_def)
qed

lemma fold_insert_idem:
  "fold insert_or_replace records (fold insert_or_replace records t)
     = fold insert_or_replace records t"
proof -
  let ?K = "record_key ` set records"
  let ?new = "fold insert_or_replace records []"
  have "filter (\<lambda>r. row_key r \<notin> ?K) ?new = []"
    using fold_insert_keys [of _ records "[]"] by (auto simp: filter_empty_conv)
  then have "filter (\<lambda>r. row_key r \<notin> ?K) (fold insert_or_replace records t)
      = filter (\<lambda>r. row_key r \<notin> ?K) t"
    by (subst fold_insert_split) simp
  then show ?thesis
    using fold_insert_split [of records "fold insert_or_replace records t"]
      fold_insert_split [of records t]
    by simp
qed

lemma executemany_eq:
  "executemany f i records t
     = (if (case f of InsertFails j \<Rightarrow> i \<le> j \<and> j < i + length records | _ \<Rightarrow> False)
        then Inl DatabaseError
        else Inr (fold insert_or_replace records t))"
  by (induction records arbitrary: i t) (auto split: fault.splits)

lemma store_pages_in_db_eq:
  "store_pages_in_db records db_path w =
     (if engine_fails (db_fault w) (length records)
      then (Inl DatabaseError,
        w\<lparr>dbs := (if db_fault w = ConnectFails then dbs w
                  else if db_fault w = CreateFails
                    then (dbs w)(db_path \<mapsto> (case dbs w db_path of None \<Rightarrow> None | Some d \<Rightarrow> d))
                    else (dbs w)(db_path \<mapsto> Some (stored_rows w db_path))),
           trace := trace w @ [DbConnect db_path]\<rparr>)
      else (Inr (),
        w\<lparr>dbs := (dbs w)(db_path \<mapsto> Some (fold insert_or_replace records (stored_rows w db_path))),
           trace := trace w @ [DbConnect db_path]\<rparr>))"
  by (cases "db_fault w")
    (auto simp: store_pages_in_db_def Let_def executemany_eq engine_fails_def log_event_def
      stored_rows_def create_table_if_not_exists_def split: option.splits)

lemma last_content_member:
  "rec \<in> set records \<Longrightarrow> \<exists>c. last_content records (record_key rec) = Some c"
proof -
  assume "rec \<in> set records"
  then have "(record_key rec, snd (snd rec))
      \<in> set (rev (map (\<lambda>rec. (record_key rec, snd (snd rec))) records))"
    by auto
  then show ?thesis
    unfolding last_content_def by (rule weak_map_of_SomeI)
qed

lemma last_content_SomeD:
  "last_content records (f, n) = Some c \<Longrightarrow> (f, n, c) \<in> set records"
proof -
  assume "last_content records (f, n) = Some c"
  then have "((f, n), c) \<in> set (rev (map (\<lambda>rec. (record_key rec, snd (snd rec))) records))"
    unfolding last_content_def by (rule map_of_SomeD)
  then show ?thesis
    by (auto simp: record_key_def)
qed

text \<open>
  C3. A call of \<^verbatim>\<open>store_pages_in_db\<close> either succeeds or raises a database
  error. When it succeeds the table exists and holds the earlier rows with every record
  upserted in order: every record's key has exactly one row, holding the content that the
  last record with that key carries, the rows of other keys are as before, and the
  primary key still holds. When it raises, the rows of the table are those from before
  the call: no record of the batch is stored. No other database is touched.
\<close>

theorem store_pages_in_db_atomic:
  assumes "store_pages_in_db records db_path w = (r, w')"
  shows "(r = Inr () \<or> r = Inl DatabaseError) \<and>
         (r = Inr () \<longleftrightarrow> \<not> engine_fails (db_fault w) (length records)) \<and>
         (r = Inr () \<longrightarrow>
            dbs w' db_path
              = Some (Some (fold insert_or_replace records (stored_rows w db_path))) \<and>
            (\<forall>rec\<in>set records. \<exists>c. last_content records (record_key rec) = Some c \<and>
               select_content (stored_rows w' db_path) (record_key rec) = [Some c]) \<and>
            (\<forall>k. last_content records k = None \<longrightarrow>
               select_content (stored_rows w' db_path) k
                 = select_content (stored_rows w db_path) k) \<and>
            (primary_key_holds (stored_rows w db_path) \<longrightarrow>
               primary_key_holds (stored_rows w' db_path))) \<and>
         (r \<noteq> Inr () \<longrightarrow> stored_rows w' db_path = stored_rows w db_path) \<and>
         (\<forall>p. p \<noteq> db_path \<longrightarrow> dbs w' p = dbs w p)"
proof (cases "engine_fails (db_fault w) (length records)")
  case True
  with assms have r: "r = Inl DatabaseError"
    and w': "w' = w\<lparr>dbs := (if db_fault w = ConnectFails then dbs w
                  else if db_fault w = CreateFails
                    then (dbs w)(db_path \<mapsto> (case dbs w db_path of None \<Rightarrow> None | Some d \<Rightarrow> d))
                    else (dbs w)(db_path \<mapsto> Some (stored_rows w db_path))),
           trace := trace w @ [DbConnect db_path]\<rparr>"
    by (simp_all add: store_pages_in_db_eq)
  have "stored_rows w' db_path = stored_rows w db_path"
    by (simp add: w' stored_rows_def split: option.splits)
  moreover have "dbs w' p = dbs w p" if "p \<noteq> db_path" for p
    using that by (simp add: w')
  ultimately show ?thesis
    using True r by simp
next
  case False
  let ?t = "fold insert_or_replace records (stored_rows w db_path)"
  from False assms have r: "r = Inr ()"
    and w': "w' = w\<lparr>dbs := (dbs w)(db_path \<mapsto> Some ?t), trace := trace w @ [DbConnect db_path]\<rparr>"
    by (simp_all add: store_pages_in_db_eq)
  have rows: "stored_rows w' db_path = ?t"
    by (simp add: w' stored_rows_def)
  have "\<exists>c. last_content records (record_key rec) = Some c \<and>
      select_content (stored_rows w' db_path) (record_key rec) = [Some c]"
    if "rec \<in> set records" for rec
    using last_content_member [OF that] by (auto simp: rows select_content_fold)
  moreover have "select_content (stored_rows w' db_path) k
      = select_content (stored_rows w db_path) k" if "last_content records k = None" for k
    using that by (simp add: rows select_content_fold)
  moreover have "primary_key_holds (stored_rows w' db_path)"
    if "primary_key_holds (stored_rows w db_path)"
    using that by (simp add: rows primary_key_fold)
  moreover have "dbs w' p = dbs w p" if "p \<noteq> db_path" for p
    using that by (simp add: w')
  moreover have "dbs w' db_path = Some (Some ?t)"
    by (simp add: w')
  ultimately show ?thesis
    using False r by simp
qed

lemma demo_store_ok:
  "store_pages_in_db demo_records [''pdf_data.db''] demo_world
     = (Inr (), demo_world\<lparr>dbs := [[''pdf_data.db''] \<mapsto> Some [(''a.pdf'', 2, Some ''''), (''a.pdf'', 1, Some ''again'')]],
          trace := [DbConnect [''pdf_data.db'']]\<rparr>)"
  by (simp add: store_pages_in_db_def demo_records_def demo_world_def Let_def log_event_def
      create_table_if_not_exists_def insert_or_replace_def row_key_def)

lemma demo_store_fails:
  "store_pages_in_db demo_records [''pdf_data.db''] (demo_world\<lparr>db_fault := InsertFails 2\<rparr>)
     = (Inl DatabaseError, demo_world\<lparr>dbs := [[''pdf_data.db''] \<mapsto> Some []], db_fault := InsertFails 2,
          trace := [DbConnect [''pdf_data.db'']]\<rparr>)"
  by (simp add: store_pages_in_db_def demo_records_def demo_world_def Let_def log_event_def
      create_table_if_not_exists_def insert_or_replace_def row_key_def)

theorem store_pages_in_db_atomic_witness:
  "fst (store_pages_in_db demo_records [''pdf_data.db''] demo_world) = Inr () \<and>
   select_content
     (stored_rows (snd (store_pages_in_db demo_records [''pdf_data.db''] demo_world)) [''pdf_data.db''])
     (''a.pdf'', 1) = [Some ''again''] \<and>
   fst (store_pages_in_db demo_records [''pdf_data.db''] (demo_world\<lparr>db_fault := InsertFails 2\<rparr>))
     = Inl DatabaseError \<and>
   stored_rows
     (snd (store_pages_in_db demo_records [''pdf_data.db''] (demo_world\<lparr>db_fault := InsertFails 2\<rparr>)))
     [''pdf_data.db''] = []"
proof -
  let ?db = "[''pdf_data.db'']"
  let ?w1 = "snd (store_pages_in_db demo_records ?db demo_world)"
  let ?w2 = "snd (store_pages_in_db demo_records ?db (demo_world\<lparr>db_fault := InsertFails 2\<rparr>))"
  note ok = store_pages_in_db_atomic [OF demo_store_ok]
  note ko = store_pages_in_db_atomic [OF demo_store_fails]
  have "(''a.pdf'', 1, ''hello'') \<in> set demo_records"
    by (simp add: demo_records_def)
  with ok obtain c where c: "last_content demo_records (record_key (''a.pdf'', 1, ''hello'')) = Some c"
    and sel: "select_content (stored_rows ?w1 ?db) (record_key (''a.pdf'', 1, ''hello'')) = [Some c]"
    unfolding demo_store_ok snd_conv by blast
  from c have "c = ''again''"
    by (simp add: last_content_def demo_records_def record_key_def)
  with sel have s1: "select_content (stored_rows ?w1 ?db) (''a.pdf'', 1) = [Some ''again'']"
    by (simp add: record_key_def)
  from ko have "stored_rows ?w2 ?db = stored_rows (demo_world\<lparr>db_fault := InsertFails 2\<rparr>) ?db"
    unfolding demo_store_fails snd_conv by simp
  also have "\<dots> = []"
    by (simp add: stored_rows_def demo_world_def)
  finally have s2: "stored_rows ?w2 ?db = []" .
  have "fst (store_pages_in_db demo_records ?db demo_world) = Inr ()"
    by (simp add: demo_store_ok)
  moreover have "fst (store_pages_in_db demo_records ?db (demo_world\<lparr>db_fault := InsertFails 2\<rparr>))
      = Inl DatabaseError"
    by (simp add: demo_store_fails)
  ultimately show ?thesis
    using s1 s2 by blast
qed

section \<open>Orchestrator: one batch, written once\<close>

lemma extract_pages_pair:
  "extract_pages pdf_file w = (fst (extract_pages pdf_file w), log_event (Opened pdf_file) w)"
  by (simp add: extract_pages_def Let_def split: sum.splits)

lemma extract_pages_InrD:
  assumes "fst (extract_pages pdf_file w) = Inr ps"
  shows "\<exists>pgs. fs w pdf_file = Some (RegularFile (Pdf pgs)) \<and> Unextractable \<notin> set pgs \<and>
           ps = zip [1..int (length pgs)] (map page_content pgs)"
proof -
  from assms obtain pgs where f: "fs w pdf_file = Some (RegularFile (Pdf pgs))"
    and e: "enumerate_pages 1 pgs = Inr ps"
    by (auto simp: extract_pages_def PdfReader_def Let_def
        split: option.splits node.splits file_body.splits)
  from e have u: "Unextractable \<notin> set pgs"
    using enumerate_pages_Inl [of pgs 1] by auto
  from enumerate_pages_Inr [OF u, of 1] e have "ps = zip [1..int (length pgs)] (map page_content pgs)"
    by simp
  with f u show ?thesis
    by blast
qed

lemma extract_pages_distinct:
  "fst (extract_pages pdf_file w) = Inr ps \<Longrightarrow> distinct (map fst ps)"
  by (auto dest!: extract_pages_InrD)

lemma extract_pages_stripped:
  "fst (extract_pages pdf_file w) = Inr ps \<Longrightarrow> (n, c) \<in> set ps \<Longrightarrow> strip c = c"
  by (auto simp: extract_pages_def PdfReader_def Let_def
      split: option.splits node.splits file_body.splits sum.splits
      dest: enumerate_pages_stripped)

lemma extractable_iff: "extractable w pdf_file \<longleftrightarrow> (\<exists>ps. fst (extract_pages pdf_file w) = Inr ps)"
  by (simp add: extractable_def split: sum.splits)

lemma extractable_fs: "fs w2 = fs w \<Longrightarrow> extractable w2 pdf_file = extractable w pdf_file"
  by (simp add: extractable_def extract_pages_fs [of w2 pdf_file w])

lemma batch_of_fs: "fs w2 = fs w \<Longrightarrow> batch_of w2 pdf_files = batch_of w pdf_files"
  by (simp add: batch_of_def extract_pages_fs [of w2 _ w])

lemma batch_of_Cons:
  "fst (extract_pages pdf_file w) = Inr ps \<Longrightarrow>
   batch_of w (pdf_file # pdf_files)
     = map (\<lambda>(page_number, content). (path_name pdf_file, page_number, content)) ps
         @ batch_of w pdf_files"
  by (simp add: batch_of_def)

lemma batch_of_trace [simp]: "batch_of (w\<lparr>trace := t\<rparr>) pdf_files = batch_of w pdf_files"
  by (rule batch_of_fs) simp

lemma batch_of_log_event [simp]: "batch_of (log_event e w) pdf_files = batch_of w pdf_files"
  by (rule batch_of_fs) simp

lemma extractable_trace [simp]: "extractable (w\<lparr>trace := t\<rparr>) pdf_file = extractable w pdf_file"
  by (rule extractable_fs) simp

lemma extractable_log_event [simp]: "extractable (log_event e w) pdf_file = extractable w pdf_file"
  by (rule extractable_fs) simp

lemma batch_of_member:
  "(x, n, c) \<in> set (batch_of w pdf_files) \<longleftrightarrow>
     (\<exists>pdf_file\<in>set pdf_files. \<exists>ps. fst (extract_pages pdf_file w) = Inr ps \<and>
        x = path_name pdf_file \<and> (n, c) \<in> set ps)"
proof (induction pdf_files)
  case Nil
  then show ?case by (simp add: batch_of_def)
next
  case (Cons pdf_file pdf_files)
  have "batch_of w (pdf_file # pdf_files) = batch_of w [pdf_file] @ batch_of w pdf_files"
    by (simp add: batch_of_def)
  moreover have "(x, n, c) \<in> set (batch_of w [pdf_file]) \<longleftrightarrow>
      (\<exists>ps. fst (extract_pages pdf_file w) = Inr ps \<and> x = path_name pdf_file \<and> (n, c) \<in> set ps)"
    by (cases "fst (extract_pages pdf_file w)") (auto simp: batch_of_def)
  ultimately show ?case
    using Cons.IH by auto
qed

lemma collect_pdf_files_fs:
  "fs w2 = fs w \<Longrightarrow> fst (collect_pdf_files d limit w2) = fst (collect_pdf_files d limit w)"
  by (simp add: collect_pdf_files_fst glob_pdf_def)

lemma ingest_loop_ok:
  "\<forall>p\<in>set pdf_files. extractable w p \<Longrightarrow>
   ingest_loop pdf_files records w
     = (Inr (records @ batch_of w pdf_files), w\<lparr>trace := trace w @ map Opened pdf_files\<rparr>)"
proof (induction pdf_files arbitrary: records w)
  case Nil
  then show ?case by (simp add: batch_of_def)
next
  case (Cons pdf_file pdf_files)
  let ?w1 = "log_event (Opened pdf_file) w"
  from Cons.prems obtain ps where ps: "fst (extract_pages pdf_file w) = Inr ps"
    by (auto simp: extractable_iff)
  then have e: "extract_pages pdf_file w = (Inr ps, ?w1)"
    using extract_pages_pair [of pdf_file w] by simp
  have "\<forall>p\<in>set pdf_files. extractable ?w1 p"
    using Cons.prems by (simp add: extractable_fs [of ?w1 w])
  from Cons.IH [OF this] e show ?case
    by (simp add: batch_of_Cons [OF ps] log_event_def)
qed

lemma ingest_loop_fails:
  "\<forall>p\<in>set pre. extractable w p \<Longrightarrow> fst (extract_pages pdf_file w) = Inl e \<Longrightarrow>
   ingest_loop (pre @ pdf_file # post) records w
     = (Inl e, w\<lparr>trace := trace w @ map Opened (pre @ [pdf_file])\<rparr>)"
proof (induction pre arbitrary: records w)
  case Nil
  then show ?case
    using extract_pages_pair [of pdf_file w] by (simp add: log_event_def)
next
  case (Cons p pre)
  let ?w1 = "log_event (Opened p) w"
  from Cons.prems obtain ps where "fst (extract_pages p w) = Inr ps"
    by (auto simp: extractable_iff)
  then have e: "extract_pages p w = (Inr ps, ?w1)"
    using extract_pages_pair [of p w] by simp
  have "\<forall>q\<in>set pre. extractable ?w1 q"
    using Cons.prems by (simp add: extractable_fs [of ?w1 w])
  moreover have "fst (extract_pages pdf_file ?w1) = Inl e"
    using Cons.prems by (simp add: extract_pages_fs [of ?w1 pdf_file w])
  ultimately show ?case
    using Cons.IH [of ?w1] e by (simp add: log_event_def)
qed

lemma ingest_loop_InrD:
  "ingest_loop pdf_files records w = (Inr out, w') \<Longrightarrow> \<forall>p\<in>set pdf_files. extractable w p"
proof (induction pdf_files arbitrary: records w)
  case Nil
  then show ?case by simp
next
  case (Cons pdf_file pdf_files)
  let ?w1 = "log_event (Opened pdf_file) w"
  from Cons.prems obtain ps where ps: "fst (extract_pages pdf_file w) = Inr ps"
    and rest: "ingest_loop pdf_files
        (records @ map (\<lambda>(page_number, content). (path_name pdf_file, page_number, content)) ps) ?w1
      = (Inr out, w')"
    using extract_pages_pair [of pdf_file w]
    by (cases "fst (extract_pages pdf_file w)") auto
  from Cons.IH [OF rest] have "\<forall>p\<in>set pdf_files. extractable w p"
    by (simp add: extractable_fs [of ?w1 w])
  with ps show ?case
    by (simp add: extractable_iff)
qed

lemma ingest_pdfs_ok:
  assumes "fst (collect_pdf_files source_dir limit w) = pdf_files" and "pdf_files \<noteq> []"
    and "\<forall>p\<in>set pdf_files. extractable w p"
  shows "ingest_pdfs source_dir db_path limit w
     = store_pages_in_db (batch_of w pdf_files) db_path
         (w\<lparr>trace := trace w @ Listed source_dir # map Opened pdf_files\<rparr>)"
proof -
  let ?w1 = "log_event (Listed source_dir) w"
  have c: "collect_pdf_files source_dir limit w = (pdf_files, ?w1)"
    using assms(1) by (simp add: collect_pdf_files_def Let_def)
  have "\<forall>p\<in>set pdf_files. extractable ?w1 p"
    using assms(3) by (simp add: extractable_fs [of ?w1 w])
  from ingest_loop_ok [OF this, of "[]"] c assms(2) show ?thesis
    by (simp add: ingest_pdfs_def log_event_def)
qed

lemma ingest_pdfs_InrD:
  assumes "ingest_pdfs source_dir db_path limit w = (Inr u, w')"
  shows "fst (collect_pdf_files source_dir limit w) \<noteq> [] \<and>
         (\<forall>p\<in>set (fst (collect_pdf_files source_dir limit w)). extractable w p)"
proof -
  let ?w1 = "log_event (Listed source_dir) w"
  obtain pdf_files where c: "collect_pdf_files source_dir limit w = (pdf_files, ?w1)"
    by (simp add: collect_pdf_files_def Let_def)
  from assms c have ne: "pdf_files \<noteq> []"
    by (auto simp: ingest_pdfs_def)
  from assms c ne obtain out w2 where "ingest_loop pdf_files [] ?w1 = (Inr out, w2)"
    by (cases "ingest_loop pdf_files [] ?w1") (auto simp: ingest_pdfs_def split: sum.splits)
  from ingest_loop_InrD [OF this] have "\<forall>p\<in>set pdf_files. extractable w p"
    by simp
  with ne c show ?thesis
    by simp
qed

text \<open>
  C6. When the extraction of the \<open>i\<close>-th listed file is the first to fail,
  \<^verbatim>\<open>ingest_pdfs\<close> raises that error after opening the files up to that one; the
  store writer is not called and every database is as it was, so the records of the earlier
  files are dropped. When every listed file can be extracted, \<^verbatim>\<open>ingest_pdfs\<close>
  is one call of the store writer with the whole batch, made after the last file was
  opened.
\<close>

theorem ingest_pdfs_single_write:
  assumes "fst (collect_pdf_files source_dir limit w) = pdf_files"
  shows "(\<forall>i e. i < length pdf_files \<and> (\<forall>j<i. extractable w (pdf_files ! j)) \<and>
              fst (extract_pages (pdf_files ! i) w) = Inl e \<longrightarrow>
            ingest_pdfs source_dir db_path limit w
              = (Inl e, w\<lparr>trace := trace w @ Listed source_dir # map Opened (take (Suc i) pdf_files)\<rparr>) \<and>
            dbs (snd (ingest_pdfs source_dir db_path limit w)) = dbs w) \<and>
         (pdf_files \<noteq> [] \<and> (\<forall>p\<in>set pdf_files. extractable w p) \<longrightarrow>
            ingest_pdfs source_dir db_path limit w
              = store_pages_in_db (batch_of w pdf_files) db_path
                  (w\<lparr>trace := trace w @ Listed source_dir # map Opened pdf_files\<rparr>) \<and>
            trace (snd (ingest_pdfs source_dir db_path limit w))
              = trace w @ Listed source_dir # map Opened pdf_files @ [DbConnect db_path])"
proof -
  let ?w1 = "log_event (Listed source_dir) w"
  have c: "collect_pdf_files source_dir limit w = (pdf_files, ?w1)"
    using assms by (simp add: collect_pdf_files_def Let_def)
  have fails: "ingest_pdfs source_dir db_path limit w
      = (Inl e, w\<lparr>trace := trace w @ Listed source_dir # map Opened (take (Suc i) pdf_files)\<rparr>)"
    if i: "i < length pdf_files" and before: "\<forall>j<i. extractable w (pdf_files ! j)"
      and e: "fst (extract_pages (pdf_files ! i) w) = Inl e" for i e
  proof -
    let ?pre = "take i pdf_files"
    have split: "pdf_files = ?pre @ pdf_files ! i # drop (Suc i) pdf_files"
      using i by (simp add: id_take_nth_drop)
    have pre: "\<forall>p\<in>set ?pre. extractable ?w1 p"
      using before i by (auto simp: in_set_conv_nth)
    have "fst (extract_pages (pdf_files ! i) ?w1) = Inl e"
      using e by (simp add: extract_pages_fs [of ?w1 _ w])
    from ingest_loop_fails [OF pre this, of "drop (Suc i) pdf_files" "[]"] split
    have "ingest_loop pdf_files [] ?w1
        = (Inl e, ?w1\<lparr>trace := trace ?w1 @ map Opened (?pre @ [pdf_files ! i])\<rparr>)"
      by simp
    moreover have "?pre @ [pdf_files ! i] = take (Suc i) pdf_files"
      using i by (simp add: take_Suc_conv_app_nth)
    moreover have "pdf_files \<noteq> []"
      using i by auto
    ultimately show ?thesis
      using c by (simp add: ingest_pdfs_def log_event_def)
  qed
  have ok: "ingest_pdfs source_dir db_path limit w
      = store_pages_in_db (batch_of w pdf_files) db_path
          (w\<lparr>trace := trace w @ Listed source_dir # map Opened pdf_files\<rparr>)"
    if "pdf_files \<noteq> []" and "\<forall>p\<in>set pdf_files. extractable w p"
    using ingest_pdfs_ok [OF assms that] .
  have tr: "trace (snd (store_pages_in_db records db_path w0)) = trace w0 @ [DbConnect db_path]"
    for records w0
    by (simp add: store_pages_in_db_eq)
  have A: "ingest_pdfs source_dir db_path limit w
        = (Inl e, w\<lparr>trace := trace w @ Listed source_dir # map Opened (take (Suc i) pdf_files)\<rparr>) \<and>
      dbs (snd (ingest_pdfs source_dir db_path limit w)) = dbs w"
    if "i < length pdf_files \<and> (\<forall>j<i. extractable w (pdf_files ! j)) \<and>
      fst (extract_pages (pdf_files ! i) w) = Inl e" for i e
    using fails [of i e] that by simp
  have B: "ingest_pdfs source_dir db_path limit w
        = store_pages_in_db (batch_of w pdf_files) db_path
            (w\<lparr>trace := trace w @ Listed source_dir # map Opened pdf_files\<rparr>) \<and>
      trace (snd (ingest_pdfs source_dir db_path limit w))
        = trace w @ Listed source_dir # map Opened pdf_files @ [DbConnect db_path]"
    if "pdf_files \<noteq> [] \<and> (\<forall>p\<in>set pdf_files. extractable w p)"
    using ok that by (simp add: tr)
  from A B show ?thesis
    by blast
qed

lemma demo_files:
  "fst (collect_pdf_files [''docs''] 5 demo_world) = [[''docs'', ''a.pdf''], [''docs'', ''b.pdf'']]"
  by (simp add: collect_pdf_files_fst demo_listing py_slice_to_def)

lemma damaged_files:
  "fst (collect_pdf_files [''docs''] 5 damaged_world) = [[''docs'', ''a.pdf''], [''docs'', ''b.pdf'']]"
proof -
  have "glob_pdf damaged_world [''docs''] = glob_pdf demo_world [''docs'']"
    by (simp add: glob_pdf_def damaged_world_def demo_world_def)
  then show ?thesis
    by (simp add: collect_pdf_files_fst demo_listing py_slice_to_def)
qed

lemma demo_extract_a:
  "fst (extract_pages [''docs'', ''a.pdf''] demo_world) = Inr [(1, ''hello''), (2, '''')]"
  by (simp add: extract_pages_def PdfReader_def Let_def demo_world_def demo_fs_def
      extract_text_def or_empty_def strip_def lstrip_def rstrip_def isspace_def)

lemma demo_extract_b:
  "fst (extract_pages [''docs'', ''b.pdf''] demo_world) = Inr [(1, ''x'')]"
  by (simp add: extract_pages_def PdfReader_def Let_def demo_world_def demo_fs_def
      extract_text_def or_empty_def strip_def lstrip_def rstrip_def isspace_def)

lemma damaged_extract_a:
  "fst (extract_pages [''docs'', ''a.pdf''] damaged_world) = Inr [(1, ''hello''), (2, '''')]"
  by (simp add: extract_pages_def PdfReader_def Let_def damaged_world_def demo_world_def demo_fs_def
      extract_text_def or_empty_def strip_def lstrip_def rstrip_def isspace_def)

lemma damaged_extract_b:
  "fst (extract_pages [''docs'', ''b.pdf''] damaged_world) = Inl ReaderError"
  by (simp add: extract_pages_def PdfReader_def Let_def damaged_world_def demo_world_def demo_fs_def
      extract_text_def or_empty_def strip_def lstrip_def rstrip_def isspace_def)

lemma demo_batch:
  "batch_of demo_world [[''docs'', ''a.pdf''], [''docs'', ''b.pdf'']]
     = [(''a.pdf'', 1, ''hello''), (''a.pdf'', 2, ''''), (''b.pdf'', 1, ''x'')]"
  by (simp add: batch_of_def demo_extract_a demo_extract_b path_name_def)

theorem ingest_pdfs_single_write_witness:
  "fst (collect_pdf_files [''docs''] 5 damaged_world) = [[''docs'', ''a.pdf''], [''docs'', ''b.pdf'']] \<and>
   extractable damaged_world [''docs'', ''a.pdf''] \<and>
   fst (extract_pages [''docs'', ''b.pdf''] damaged_world) = Inl ReaderError \<and>
   ingest_pdfs [''docs''] [''pdf_data.db''] 5 damaged_world
     = (Inl ReaderError,
        damaged_world\<lparr>trace := [Listed [''docs''], Opened [''docs'', ''a.pdf''], Opened [''docs'', ''b.pdf'']]\<rparr>) \<and>
   dbs (snd (ingest_pdfs [''docs''] [''pdf_data.db''] 5 damaged_world)) [''pdf_data.db''] = None \<and>
   fst (collect_pdf_files [''docs''] 5 demo_world) = [[''docs'', ''a.pdf''], [''docs'', ''b.pdf'']] \<and>
   extractable demo_world [''docs'', ''a.pdf''] \<and>
   extractable demo_world [''docs'', ''b.pdf''] \<and>
   trace (snd (ingest_pdfs [''docs''] [''pdf_data.db''] 5 demo_world))
     = [Listed [''docs''], Opened [''docs'', ''a.pdf''], Opened [''docs'', ''b.pdf''],
        DbConnect [''pdf_data.db'']]"
proof -
  let ?files = "[[''docs'', ''a.pdf''], [''docs'', ''b.pdf'']]"
  let ?db = "[''pdf_data.db'']"
  have xa: "extractable damaged_world [''docs'', ''a.pdf'']"
    by (simp add: extractable_def damaged_extract_a)
  have da: "extractable demo_world [''docs'', ''a.pdf'']"
    by (simp add: extractable_def demo_extract_a)
  have db: "extractable demo_world [''docs'', ''b.pdf'']"
    by (simp add: extractable_def demo_extract_b)
  have "(1 :: nat) < length ?files \<and> (\<forall>j<1. extractable damaged_world (?files ! j)) \<and>
      fst (extract_pages (?files ! 1) damaged_world) = Inl ReaderError"
    using xa damaged_extract_b by simp
  with ingest_pdfs_single_write [OF damaged_files, of ?db]
  have "ingest_pdfs [''docs''] ?db 5 damaged_world
        = (Inl ReaderError,
           damaged_world\<lparr>trace := trace damaged_world @ Listed [''docs''] # map Opened (take (Suc 1) ?files)\<rparr>) \<and>
      dbs (snd (ingest_pdfs [''docs''] ?db 5 damaged_world)) = dbs damaged_world"
    by blast
  moreover have "trace damaged_world = []" and "dbs damaged_world ?db = None"
    by (simp_all add: damaged_world_def demo_world_def)
  ultimately have bad: "ingest_pdfs [''docs''] ?db 5 damaged_world
        = (Inl ReaderError, damaged_world\<lparr>trace := [Listed [''docs''], Opened [''docs'', ''a.pdf''],
             Opened [''docs'', ''b.pdf'']]\<rparr>)"
    and none: "dbs (snd (ingest_pdfs [''docs''] ?db 5 damaged_world)) ?db = None"
    by simp_all
  have "?files \<noteq> [] \<and> (\<forall>p\<in>set ?files. extractable demo_world p)"
    using da db by simp
  with ingest_pdfs_single_write [OF demo_files, of ?db]
  have "trace (snd (ingest_pdfs [''docs''] ?db 5 demo_world))
      = trace demo_world @ Listed [''docs''] # map Opened ?files @ [DbConnect ?db]"
    by blast
  then have good: "trace (snd (ingest_pdfs [''docs''] ?db 5 demo_world))
      = [Listed [''docs''], Opened [''docs'', ''a.pdf''], Opened [''docs'', ''b.pdf''], DbConnect ?db]"
    by (simp add: demo_world_def)
  from damaged_files xa damaged_extract_b bad none demo_files da db good show ?thesis
    by blast
qed

section \<open>What the table holds after a run\<close>

lemma stored_rows_trace [simp]: "stored_rows (w\<lparr>trace := t\<rparr>) db_path = stored_rows w db_path"
  by (simp add: stored_rows_def)

lemma store_pages_in_db_rows:
  "store_pages_in_db records db_path w = (Inr (), w') \<Longrightarrow>
   stored_rows w' db_path = fold insert_or_replace records (stored_rows w db_path)"
  by (auto simp: store_pages_in_db_eq stored_rows_def split: if_splits)

lemma batch_of_stripped:
  "(x, n, c) \<in> set (batch_of w pdf_files) \<Longrightarrow> strip c = c"
  by (auto simp: batch_of_member dest: extract_pages_stripped)

lemma batch_of_functional:
  assumes "set pdf_files \<subseteq> set (glob_pdf w d)"
    and "(x, n, c1) \<in> set (batch_of w pdf_files)"
    and "(x, n, c2) \<in> set (batch_of w pdf_files)"
  shows "c1 = c2"
proof -
  from assms(2) obtain f1 ps1 where f1: "f1 \<in> set pdf_files"
    "fst (extract_pages f1 w) = Inr ps1" "x = path_name f1" "(n, c1) \<in> set ps1"
    by (auto simp: batch_of_member)
  from assms(3) obtain f2 ps2 where f2: "f2 \<in> set pdf_files"
    "fst (extract_pages f2 w) = Inr ps2" "x = path_name f2" "(n, c2) \<in> set ps2"
    by (auto simp: batch_of_member)
  from f1(1) f2(1) assms(1) obtain a b where "f1 = d @ [a]" "f2 = d @ [b]"
    by (meson glob_pdf_member subsetD)
  with f1(3) f2(3) have "f1 = f2"
    by simp
  with f1(2) f2(2) have "ps2 = ps1"
    by simp
  moreover have "distinct (map fst ps1)"
    using f1(2) by (rule extract_pages_distinct)
  ultimately show ?thesis
    using f1(4) f2(4) by (auto dest: eq_key_imp_eq_value)
qed

lemma round_trip_select:
  assumes "set pdf_files \<subseteq> set (glob_pdf w d)"
    and "(x, n, c) \<in> set (batch_of w pdf_files)"
  shows "select_content (fold insert_or_replace (batch_of w pdf_files) t) (x, n) = [Some c]"
proof -
  from last_content_member [OF assms(2)] obtain c'
    where c': "last_content (batch_of w pdf_files) (x, n) = Some c'"
    by (auto simp: record_key_def)
  then have "(x, n, c') \<in> set (batch_of w pdf_files)"
    by (rule last_content_SomeD)
  with assms have "c' = c"
    by (blast dest: batch_of_functional)
  with c' show ?thesis
    by (simp add: select_content_fold)
qed

lemma nth_page_member:
  "i < length pgs \<Longrightarrow>
   (int i + 1, page_content (pgs ! i)) \<in> set (zip [1..int (length pgs)] (map page_content pgs))"
proof -
  assume i: "i < length pgs"
  let ?z = "zip [1..int (length pgs)] (map page_content pgs)"
  have "?z ! i = (int i + 1, page_content (pgs ! i))"
    using i by simp
  moreover have "i < length ?z"
    using i by simp
  ultimately show ?thesis
    by (metis nth_mem)
qed

lemma store_pages_in_db_again:
  assumes "store_pages_in_db records db_path w = (r, w1)"
    and "dbs wB = dbs w1" and "db_fault wB = db_fault w"
  shows "fst (store_pages_in_db records db_path wB) = r \<and>
         dbs (snd (store_pages_in_db records db_path wB)) = dbs w1"
proof (cases "engine_fails (db_fault w) (length records)")
  case True
  with assms(1) have r: "r = Inl DatabaseError"
    and d: "dbs w1 = (if db_fault w = ConnectFails then dbs w
                  else if db_fault w = CreateFails
                    then (dbs w)(db_path \<mapsto> (case dbs w db_path of None \<Rightarrow> None | Some d \<Rightarrow> d))
                    else (dbs w)(db_path \<mapsto> Some (stored_rows w db_path)))"
    by (auto simp: store_pages_in_db_eq)
  from True assms(2,3) r d show ?thesis
    by (auto simp: store_pages_in_db_eq stored_rows_def fun_eq_iff)
next
  case False
  with assms(1) have r: "r = Inr ()"
    and d: "dbs w1 = (dbs w)(db_path \<mapsto> Some (fold insert_or_replace records (stored_rows w db_path)))"
    by (auto simp: store_pages_in_db_eq)
  from d assms(2) have "stored_rows wB db_path = fold insert_or_replace records (stored_rows w db_path)"
    by (simp add: stored_rows_def)
  with False assms(2,3) r d show ?thesis
    by (auto simp: store_pages_in_db_eq fold_insert_idem fun_eq_iff)
qed

lemma first_failure:
  assumes "\<not> (\<forall>p\<in>set pdf_files. extractable w p)"
  shows "\<exists>pre pdf_file post e. pdf_files = pre @ pdf_file # post \<and>
           (\<forall>p\<in>set pre. extractable w p) \<and> fst (extract_pages pdf_file w) = Inl e"
proof -
  from assms have "\<exists>p\<in>set pdf_files. \<not> extractable w p"
    by simp
  then obtain pre pdf_file post where s: "pdf_files = pre @ pdf_file # post"
    and f: "\<not> extractable w pdf_file" and p: "\<forall>p\<in>set pre. \<not> \<not> extractable w p"
    by (auto dest!: split_list_first_prop)
  from f obtain e where "fst (extract_pages pdf_file w) = Inl e"
    by (cases "fst (extract_pages pdf_file w)") (auto simp: extractable_def)
  with s p show ?thesis
    by auto
qed

lemma ingest_pdfs_fails:
  assumes "fst (collect_pdf_files source_dir limit w) = pre @ pdf_file # post"
    and "\<forall>p\<in>set pre. extractable w p" and "fst (extract_pages pdf_file w) = Inl e"
  shows "ingest_pdfs source_dir db_path limit w
     = (Inl e, w\<lparr>trace := trace w @ Listed source_dir # map Opened (pre @ [pdf_file])\<rparr>)"
proof -
  let ?w1 = "log_event (Listed source_dir) w"
  have c: "collect_pdf_files source_dir limit w = (pre @ pdf_file # post, ?w1)"
    using assms(1) by (simp add: collect_pdf_files_def Let_def)
  have "\<forall>p\<in>set pre. extractable ?w1 p"
    using assms(2) by simp
  moreover have "fst (extract_pages pdf_file ?w1) = Inl e"
    using assms(3) by (simp add: extract_pages_fs [of ?w1 _ w])
  ultimately have "ingest_loop (pre @ pdf_file # post) [] ?w1
      = (Inl e, ?w1\<lparr>trace := trace ?w1 @ map Opened (pre @ [pdf_file])\<rparr>)"
    by (rule ingest_loop_fails)
  with c show ?thesis
    by (simp add: ingest_pdfs_def log_event_def)
qed

lemma ingest_pdfs_again:
  assumes "ingest_pdfs source_dir db_path limit w = (r, w1)"
  shows "fs w1 = fs w \<and> db_fault w1 = db_fault w \<and>
         fst (ingest_pdfs source_dir db_path limit w1) = r \<and>
         dbs (snd (ingest_pdfs source_dir db_path limit w1)) = dbs w1"
proof -
  let ?files = "fst (collect_pdf_files source_dir limit w)"
  consider (empty) "?files = []"
    | (fails) "?files \<noteq> []" "\<not> (\<forall>p\<in>set ?files. extractable w p)"
    | (stores) "?files \<noteq> []" "\<forall>p\<in>set ?files. extractable w p"
    by blast
  then show ?thesis
  proof cases
    case empty
    with assms have r: "r = Inl FileNotFoundError" and w1: "w1 = log_event (Listed source_dir) w"
      by (simp_all add: ingest_pdfs_empty_listing)
    have fs1: "fs w1 = fs w"
      by (simp add: w1)
    have "fst (collect_pdf_files source_dir limit w1) = []"
      using empty collect_pdf_files_fs [OF fs1] by simp
    then show ?thesis
      by (simp add: ingest_pdfs_empty_listing r) (simp add: w1)
  next
    case fails
    from first_failure [OF fails(2)] obtain pre pdf_file post e
      where s: "?files = pre @ pdf_file # post" and p: "\<forall>p\<in>set pre. extractable w p"
        and e: "fst (extract_pages pdf_file w) = Inl e"
      by blast
    from ingest_pdfs_fails [OF s p e, of db_path] assms have r: "r = Inl e"
      and w1: "w1 = w\<lparr>trace := trace w @ Listed source_dir # map Opened (pre @ [pdf_file])\<rparr>"
      by simp_all
    have fs1: "fs w1 = fs w"
      by (simp add: w1)
    have "fst (collect_pdf_files source_dir limit w1) = pre @ pdf_file # post"
      using s collect_pdf_files_fs [OF fs1] by simp
    moreover have "\<forall>p\<in>set pre. extractable w1 p"
      using p by (simp add: w1)
    moreover have "fst (extract_pages pdf_file w1) = Inl e"
      using e by (simp add: extract_pages_fs [of w1 _ w] fs1)
    ultimately have "ingest_pdfs source_dir db_path limit w1
        = (Inl e, w1\<lparr>trace := trace w1 @ Listed source_dir # map Opened (pre @ [pdf_file])\<rparr>)"
      by (rule ingest_pdfs_fails)
    then show ?thesis
      by (simp add: r fs1) (simp add: w1)
  next
    case stores
    let ?B = "batch_of w ?files"
    let ?wA = "w\<lparr>trace := trace w @ Listed source_dir # map Opened ?files\<rparr>"
    have one: "store_pages_in_db ?B db_path ?wA = (r, w1)"
      using ingest_pdfs_ok [OF refl stores, of db_path] assms by simp
    then have fs1: "fs w1 = fs w" and fault1: "db_fault w1 = db_fault w"
      by (auto simp: store_pages_in_db_eq split: if_splits)
    let ?wB = "w1\<lparr>trace := trace w1 @ Listed source_dir # map Opened ?files\<rparr>"
    have files1: "fst (collect_pdf_files source_dir limit w1) = ?files"
      using fs1 by (rule collect_pdf_files_fs)
    have ex1: "\<forall>p\<in>set ?files. extractable w1 p"
      using stores(2) by (simp add: extractable_fs [OF fs1])
    have "ingest_pdfs source_dir db_path limit w1 = store_pages_in_db (batch_of w1 ?files) db_path ?wB"
      by (rule ingest_pdfs_ok [OF files1 stores(1) ex1])
    then have two: "ingest_pdfs source_dir db_path limit w1 = store_pages_in_db ?B db_path ?wB"
      by (simp only: batch_of_fs [OF fs1])
    have "dbs ?wB = dbs w1" and "db_fault ?wB = db_fault ?wA"
      by (simp_all add: fault1)
    from store_pages_in_db_again [OF one this] fs1 fault1 show ?thesis
      by (simp only: two)
  qed
qed

lemma ingest_pdfs_rows:
  assumes "ingest_pdfs source_dir db_path limit w = (r, w1)"
  shows "stored_rows w1 db_path
     = (if r = Inr ()
        then fold insert_or_replace (batch_of w (fst (collect_pdf_files source_dir limit w)))
               (stored_rows w db_path)
        else stored_rows w db_path)"
proof -
  let ?files = "fst (collect_pdf_files source_dir limit w)"
  consider (empty) "?files = []"
    | (fails) "?files \<noteq> []" "\<not> (\<forall>p\<in>set ?files. extractable w p)"
    | (stores) "?files \<noteq> []" "\<forall>p\<in>set ?files. extractable w p"
    by blast
  then show ?thesis
  proof cases
    case empty
    with assms show ?thesis
      by (auto simp: ingest_pdfs_empty_listing stored_rows_def)
  next
    case fails
    from first_failure [OF fails(2)] obtain pre pdf_file post e
      where "?files = pre @ pdf_file # post" and "\<forall>p\<in>set pre. extractable w p"
        and "fst (extract_pages pdf_file w) = Inl e"
      by blast
    from ingest_pdfs_fails [OF this, of db_path] assms show ?thesis
      by auto
  next
    case stores
    let ?wA = "w\<lparr>trace := trace w @ Listed source_dir # map Opened ?files\<rparr>"
    have "store_pages_in_db (batch_of w ?files) db_path ?wA = (r, w1)"
      using ingest_pdfs_ok [OF refl stores, of db_path] assms by simp
    then show ?thesis
      by (auto simp: store_pages_in_db_eq stored_rows_def split: if_splits option.splits)
  qed
qed

text \<open>
  C2. A second run of \<^verbatim>\<open>ingest_pdfs\<close> on the world that the first run left, with
  the same arguments, ends as the first run did and leaves every database as the first
  run left it: the table has the same rows. If the primary key held in the table before
  the first run it holds after the second, and after successful runs every key of the
  batch has exactly one row.
\<close>

theorem ingest_pdfs_idempotent:
  assumes "ingest_pdfs source_dir db_path limit w = (r, w1)"
  shows "\<exists>w2. ingest_pdfs source_dir db_path limit w1 = (r, w2) \<and>
           dbs w2 = dbs w1 \<and>
           stored_rows w2 db_path = stored_rows w1 db_path \<and>
           (primary_key_holds (stored_rows w db_path) \<longrightarrow>
              primary_key_holds (stored_rows w2 db_path)) \<and>
           (r = Inr () \<longrightarrow>
              (\<forall>rec\<in>set (batch_of w (fst (collect_pdf_files source_dir limit w))).
                 length (select_content (stored_rows w2 db_path) (record_key rec)) = 1))"
proof -
  let ?B = "batch_of w (fst (collect_pdf_files source_dir limit w))"
  let ?w2 = "snd (ingest_pdfs source_dir db_path limit w1)"
  from ingest_pdfs_again [OF assms] have two: "ingest_pdfs source_dir db_path limit w1 = (r, ?w2)"
    and same: "dbs ?w2 = dbs w1"
    by (simp_all add: prod_eq_iff)
  from same have rows2: "stored_rows ?w2 db_path = stored_rows w1 db_path"
    by (simp add: stored_rows_def)
  note rows1 = ingest_pdfs_rows [OF assms]
  have pk: "primary_key_holds (stored_rows ?w2 db_path)"
    if "primary_key_holds (stored_rows w db_path)"
    using that by (simp add: rows2 rows1 primary_key_fold)
  have uniq: "length (select_content (stored_rows ?w2 db_path) (record_key rec)) = 1"
    if "r = Inr ()" and "rec \<in> set ?B" for rec
    using last_content_member [OF that(2)] that(1)
    by (auto simp: rows2 rows1 select_content_fold)
  from two same rows2 pk uniq show ?thesis
    by (intro exI [of _ ?w2]) blast
qed

lemma demo_run:
  "ingest_pdfs [''docs''] [''pdf_data.db''] 5 demo_world
     = (Inr (),
        demo_world\<lparr>dbs := [[''pdf_data.db''] \<mapsto>
            Some [(''a.pdf'', 1, Some ''hello''), (''a.pdf'', 2, Some ''''), (''b.pdf'', 1, Some ''x'')]],
          trace := [Listed [''docs''], Opened [''docs'', ''a.pdf''], Opened [''docs'', ''b.pdf''],
            DbConnect [''pdf_data.db'']]\<rparr>)"
proof -
  let ?files = "[[''docs'', ''a.pdf''], [''docs'', ''b.pdf'']]"
  have "?files \<noteq> []" and "\<forall>p\<in>set ?files. extractable demo_world p"
    by (simp_all add: extractable_def demo_extract_a demo_extract_b)
  from ingest_pdfs_ok [OF demo_files this, of "[''pdf_data.db'']"]
  have "ingest_pdfs [''docs''] [''pdf_data.db''] 5 demo_world
      = store_pages_in_db [(''a.pdf'', 1, ''hello''), (''a.pdf'', 2, ''''), (''b.pdf'', 1, ''x'')]
          [''pdf_data.db'']
          (demo_world\<lparr>trace := trace demo_world @ Listed [''docs''] # map Opened ?files\<rparr>)"
    by (simp only: demo_batch)
  also have "\<dots> = (Inr (),
        demo_world\<lparr>dbs := [[''pdf_data.db''] \<mapsto>
            Some [(''a.pdf'', 1, Some ''hello''), (''a.pdf'', 2, Some ''''), (''b.pdf'', 1, Some ''x'')]],
          trace := [Listed [''docs''], Opened [''docs'', ''a.pdf''], Opened [''docs'', ''b.pdf''],
            DbConnect [''pdf_data.db'']]\<rparr>)"
    by (simp add: store_pages_in_db_eq engine_fails_def stored_rows_def demo_world_def
        insert_or_replace_def row_key_def)
  finally show ?thesis .
qed

theorem ingest_pdfs_idempotent_witness:
  "fst (ingest_pdfs [''docs''] [''pdf_data.db''] 5 demo_world) = Inr () \<and>
   primary_key_holds (stored_rows demo_world [''pdf_data.db'']) \<and>
   fst (ingest_pdfs [''docs''] [''pdf_data.db''] 5
          (snd (ingest_pdfs [''docs''] [''pdf_data.db''] 5 demo_world))) = Inr () \<and>
   stored_rows
     (snd (ingest_pdfs [''docs''] [''pdf_data.db''] 5
        (snd (ingest_pdfs [''docs''] [''pdf_data.db''] 5 demo_world)))) [''pdf_data.db'']
     = [(''a.pdf'', 1, Some ''hello''), (''a.pdf'', 2, Some ''''), (''b.pdf'', 1, Some ''x'')] \<and>
   primary_key_holds
     (stored_rows
        (snd (ingest_pdfs [''docs''] [''pdf_data.db''] 5
           (snd (ingest_pdfs [''docs''] [''pdf_data.db''] 5 demo_world)))) [''pdf_data.db''])"
proof -
  let ?db = "[''pdf_data.db'']"
  let ?w1 = "snd (ingest_pdfs [''docs''] ?db 5 demo_world)"
  have run: "ingest_pdfs [''docs''] ?db 5 demo_world = (Inr (), ?w1)"
    by (simp add: demo_run)
  have pk: "primary_key_holds (stored_rows demo_world ?db)"
    by (simp add: primary_key_holds_def stored_rows_def demo_world_def)
  from ingest_pdfs_idempotent [OF run] pk obtain w2
    where two: "ingest_pdfs [''docs''] ?db 5 ?w1 = (Inr (), w2)"
      and rows: "stored_rows w2 ?db = stored_rows ?w1 ?db"
      and pk2: "primary_key_holds (stored_rows w2 ?db)"
    by blast
  have "stored_rows ?w1 ?db
      = [(''a.pdf'', 1, Some ''hello''), (''a.pdf'', 2, Some ''''), (''b.pdf'', 1, Some ''x'')]"
    by (simp add: demo_run stored_rows_def)
  with rows have rows2: "stored_rows w2 ?db
      = [(''a.pdf'', 1, Some ''hello''), (''a.pdf'', 2, Some ''''), (''b.pdf'', 1, Some ''x'')]"
    by simp
  have r1: "fst (ingest_pdfs [''docs''] ?db 5 demo_world) = Inr ()"
    by (simp add: demo_run)
  from two have "fst (ingest_pdfs [''docs''] ?db 5 ?w1) = Inr ()"
    and "snd (ingest_pdfs [''docs''] ?db 5 ?w1) = w2"
    by simp_all
  with r1 pk rows2 pk2 show ?thesis
    by simp
qed

section \<open>Round trip and the shape of the stored content\<close>

text \<open>
  C1. When the listing is not empty, every listed file can be extracted and the storage
  engine does not fail, \<^verbatim>\<open>ingest_pdfs\<close> succeeds, and afterwards the query for
  the name of a listed file and one of its page numbers returns exactly one row, whose
  content is the content that \<^verbatim>\<open>extract_pages\<close> returns for that page: the text
  of the page stripped, the empty string for a page without text.
\<close>

theorem ingest_pdfs_round_trip:
  assumes "fst (collect_pdf_files source_dir limit w) = pdf_files" and "pdf_files \<noteq> []"
    and "\<forall>p\<in>set pdf_files. extractable w p"
    and "\<not> engine_fails (db_fault w) (length (batch_of w pdf_files))"
  shows "\<exists>w'. ingest_pdfs source_dir db_path limit w = (Inr (), w') \<and>
           (\<forall>pdf_file\<in>set pdf_files. \<forall>ps. fst (extract_pages pdf_file w) = Inr ps \<longrightarrow>
              (\<forall>(n, c)\<in>set ps.
                 select_content (stored_rows w' db_path) (path_name pdf_file, n) = [Some c])) \<and>
           (\<forall>pdf_file\<in>set pdf_files. \<exists>pgs. fs w pdf_file = Some (RegularFile (Pdf pgs)) \<and>
              (\<forall>i<length pgs.
                 select_content (stored_rows w' db_path) (path_name pdf_file, int i + 1)
                   = [Some (page_content (pgs ! i))]))"
proof -
  let ?B = "batch_of w pdf_files"
  let ?wA = "w\<lparr>trace := trace w @ Listed source_dir # map Opened pdf_files\<rparr>"
  let ?t = "fold insert_or_replace ?B (stored_rows w db_path)"
  let ?w' = "?wA\<lparr>dbs := (dbs ?wA)(db_path \<mapsto> Some ?t), trace := trace ?wA @ [DbConnect db_path]\<rparr>"
  have run: "ingest_pdfs source_dir db_path limit w = (Inr (), ?w')"
    using assms(4) by (simp add: ingest_pdfs_ok [OF assms(1-3)] store_pages_in_db_eq)
  have rows: "stored_rows ?w' db_path = ?t"
    by (simp add: stored_rows_def)
  have sub: "set pdf_files \<subseteq> set (glob_pdf w source_dir)"
    using assms(1) collect_pdf_files_member [of _ source_dir limit w] by auto
  have sel: "select_content (stored_rows ?w' db_path) (path_name pdf_file, n) = [Some c]"
    if "pdf_file \<in> set pdf_files" and "fst (extract_pages pdf_file w) = Inr ps" and "(n, c) \<in> set ps"
    for pdf_file ps n c
  proof -
    from that have "(path_name pdf_file, n, c) \<in> set ?B"
      by (auto simp: batch_of_member)
    from round_trip_select [OF sub this] show ?thesis
      by (simp only: rows)
  qed
  have raw: "\<exists>pgs. fs w pdf_file = Some (RegularFile (Pdf pgs)) \<and>
      (\<forall>i<length pgs. select_content (stored_rows ?w' db_path) (path_name pdf_file, int i + 1)
         = [Some (page_content (pgs ! i))])"
    if f: "pdf_file \<in> set pdf_files" for pdf_file
  proof -
    from f assms(3) obtain ps where ps: "fst (extract_pages pdf_file w) = Inr ps"
      by (auto simp: extractable_iff)
    from extract_pages_InrD [OF this] obtain pgs
      where pgs: "fs w pdf_file = Some (RegularFile (Pdf pgs))"
        and z: "ps = zip [1..int (length pgs)] (map page_content pgs)"
      by blast
    have "select_content (stored_rows ?w' db_path) (path_name pdf_file, int i + 1)
        = [Some (page_content (pgs ! i))]" if "i < length pgs" for i
      using sel [OF f ps] nth_page_member [OF that] z by blast
    with pgs show ?thesis
      by blast
  qed
  from run sel raw show ?thesis
    by (intro exI [of _ ?w']) blast
qed

theorem ingest_pdfs_round_trip_witness:
  "fst (collect_pdf_files [''docs''] 5 demo_world) = [[''docs'', ''a.pdf''], [''docs'', ''b.pdf'']] \<and>
   extractable demo_world [''docs'', ''a.pdf''] \<and>
   extractable demo_world [''docs'', ''b.pdf''] \<and>
   \<not> engine_fails (db_fault demo_world)
       (length (batch_of demo_world [[''docs'', ''a.pdf''], [''docs'', ''b.pdf'']])) \<and>
   fst (ingest_pdfs [''docs''] [''pdf_data.db''] 5 demo_world) = Inr () \<and>
   fst (extract_pages [''docs'', ''a.pdf''] demo_world) = Inr [(1, ''hello''), (2, '''')] \<and>
   select_content
     (stored_rows (snd (ingest_pdfs [''docs''] [''pdf_data.db''] 5 demo_world)) [''pdf_data.db''])
     (''a.pdf'', 1) = [Some ''hello''] \<and>
   select_content
     (stored_rows (snd (ingest_pdfs [''docs''] [''pdf_data.db''] 5 demo_world)) [''pdf_data.db''])
     (''a.pdf'', 2) = [Some '''']"
proof -
  let ?files = "[[''docs'', ''a.pdf''], [''docs'', ''b.pdf'']]"
  let ?db = "[''pdf_data.db'']"
  have ne: "?files \<noteq> []"
    by simp
  have xa: "extractable demo_world [''docs'', ''a.pdf'']"
    and xb: "extractable demo_world [''docs'', ''b.pdf'']"
    by (simp_all add: extractable_def demo_extract_a demo_extract_b)
  then have ex: "\<forall>p\<in>set ?files. extractable demo_world p"
    by simp
  have nf: "\<not> engine_fails (db_fault demo_world) (length (batch_of demo_world ?files))"
    by (simp add: engine_fails_def demo_world_def)
  from ingest_pdfs_round_trip [OF demo_files ne ex nf, of ?db] obtain w'
    where run: "ingest_pdfs [''docs''] ?db 5 demo_world = (Inr (), w')"
      and sel: "\<forall>pdf_file\<in>set ?files. \<forall>ps. fst (extract_pages pdf_file demo_world) = Inr ps \<longrightarrow>
        (\<forall>(n, c)\<in>set ps. select_content (stored_rows w' ?db) (path_name pdf_file, n) = [Some c])"
    by blast
  from sel demo_extract_a
  have "\<forall>(n, c)\<in>set [(1, ''hello''), (2, '''')].
      select_content (stored_rows w' ?db) (path_name [''docs'', ''a.pdf''], n) = [Some c]"
    by simp
  then have s1: "select_content (stored_rows w' ?db) (''a.pdf'', 1) = [Some ''hello'']"
    and s2: "select_content (stored_rows w' ?db) (''a.pdf'', 2) = [Some '''']"
    by (simp_all add: path_name_def)
  from run have "fst (ingest_pdfs [''docs''] ?db 5 demo_world) = Inr ()"
    and "snd (ingest_pdfs [''docs''] ?db 5 demo_world) = w'"
    by simp_all
  with demo_files xa xb nf demo_extract_a s1 s2 show ?thesis
    by simp
qed

text \<open>
  C10. Every record that the loop of \<^verbatim>\<open>ingest_pdfs\<close> hands to the store writer
  carries a string that stripping leaves unchanged, and when the store writer succeeds
  the row of each of these keys holds such a string, not \<^verbatim>\<open>NULL\<close>.
\<close>

theorem ingest_records_stripped:
  assumes "collect_pdf_files source_dir limit w = (pdf_files, w1)"
    and "ingest_loop pdf_files [] w1 = (Inr records, w2)"
  shows "(\<forall>rec\<in>set records. strip (snd (snd rec)) = snd (snd rec)) \<and>
         (pdf_files \<noteq> [] \<longrightarrow>
            ingest_pdfs source_dir db_path limit w = store_pages_in_db records db_path w2) \<and>
         (\<forall>w'. store_pages_in_db records db_path w2 = (Inr (), w') \<longrightarrow>
            (\<forall>rec\<in>set records. \<exists>c.
               select_content (stored_rows w' db_path) (record_key rec) = [Some c] \<and> strip c = c))"
proof -
  from ingest_loop_InrD [OF assms(2)] have "\<forall>p\<in>set pdf_files. extractable w1 p" .
  from ingest_loop_ok [OF this, of "[]"] assms(2) have records: "records = batch_of w1 pdf_files"
    by simp
  have stripped: "strip (snd (snd rec)) = snd (snd rec)" if "rec \<in> set records" for rec
    using that batch_of_stripped [of "fst rec" "fst (snd rec)" "snd (snd rec)" w1 pdf_files]
    by (simp add: records)
  have call: "ingest_pdfs source_dir db_path limit w = store_pages_in_db records db_path w2"
    if "pdf_files \<noteq> []"
    using that assms by (simp add: ingest_pdfs_def)
  have stored: "\<exists>c. select_content (stored_rows w' db_path) (record_key rec) = [Some c] \<and> strip c = c"
    if s: "store_pages_in_db records db_path w2 = (Inr (), w')" and r: "rec \<in> set records"
    for w' rec
  proof -
    from last_content_member [OF r] obtain c
      where c: "last_content records (record_key rec) = Some c"
      by blast
    have sel: "select_content (stored_rows w' db_path) (record_key rec) = [Some c]"
      by (simp add: store_pages_in_db_rows [OF s] select_content_fold c)
    from c have "(fst (record_key rec), snd (record_key rec), c) \<in> set records"
      by (intro last_content_SomeD) simp
    from stripped [OF this] sel show ?thesis
      by simp
  qed
  from stripped call stored show ?thesis
    by blast
qed

lemma demo_collect:
  "collect_pdf_files [''docs''] 5 demo_world
     = ([[''docs'', ''a.pdf''], [''docs'', ''b.pdf'']], log_event (Listed [''docs'']) demo_world)"
  using demo_files by (simp add: prod_eq_iff)

lemma demo_loop:
  "ingest_loop [[''docs'', ''a.pdf''], [''docs'', ''b.pdf'']] [] (log_event (Listed [''docs'']) demo_world)
     = (Inr [(''a.pdf'', 1, ''hello''), (''a.pdf'', 2, ''''), (''b.pdf'', 1, ''x'')],
        demo_world\<lparr>trace := [Listed [''docs''], Opened [''docs'', ''a.pdf''],
          Opened [''docs'', ''b.pdf'']]\<rparr>)"
proof -
  let ?files = "[[''docs'', ''a.pdf''], [''docs'', ''b.pdf'']]"
  have "\<forall>p\<in>set ?files. extractable demo_world p"
    by (simp add: extractable_def demo_extract_a demo_extract_b)
  then have "\<forall>p\<in>set ?files. extractable (log_event (Listed [''docs'']) demo_world) p"
    by simp
  from ingest_loop_ok [OF this, of "[]"] show ?thesis
    by (simp add: demo_batch) (simp add: log_event_def demo_world_def)
qed

theorem ingest_records_stripped_witness:
  "collect_pdf_files [''docs''] 5 demo_world
     = ([[''docs'', ''a.pdf''], [''docs'', ''b.pdf'']], log_event (Listed [''docs'']) demo_world) \<and>
   ingest_loop [[''docs'', ''a.pdf''], [''docs'', ''b.pdf'']] [] (log_event (Listed [''docs'']) demo_world)
     = (Inr [(''a.pdf'', 1, ''hello''), (''a.pdf'', 2, ''''), (''b.pdf'', 1, ''x'')],
        demo_world\<lparr>trace := [Listed [''docs''], Opened [''docs'', ''a.pdf''],
          Opened [''docs'', ''b.pdf'']]\<rparr>) \<and>
   strip ''hello'' = ''hello'' \<and> strip '''' = '''' \<and> strip ''x'' = ''x'' \<and>
   ingest_pdfs [''docs''] [''pdf_data.db''] 5 demo_world
     = store_pages_in_db [(''a.pdf'', 1, ''hello''), (''a.pdf'', 2, ''''), (''b.pdf'', 1, ''x'')]
         [''pdf_data.db'']
         (demo_world\<lparr>trace := [Listed [''docs''], Opened [''docs'', ''a.pdf''],
            Opened [''docs'', ''b.pdf'']]\<rparr>)"
proof -
  note t = ingest_records_stripped [OF demo_collect demo_loop, of "[''pdf_data.db'']"]
  from t have "\<forall>rec\<in>set [(''a.pdf'', 1 :: int, ''hello''), (''a.pdf'', 2, ''''), (''b.pdf'', 1, ''x'')].
      strip (snd (snd rec)) = snd (snd rec)"
    by blast
  then have s: "strip ''hello'' = ''hello'' \<and> strip '''' = '''' \<and> strip ''x'' = ''x''"
    by simp
  from t have "ingest_pdfs [''docs''] [''pdf_data.db''] 5 demo_world
     = store_pages_in_db [(''a.pdf'', 1, ''hello''), (''a.pdf'', 2, ''''), (''b.pdf'', 1, ''x'')]
         [''pdf_data.db'']
         (demo_world\<lparr>trace := [Listed [''docs''], Opened [''docs'', ''a.pdf''],
            Opened [''docs'', ''b.pdf'']]\<rparr>)"
    by simp
  with s demo_collect demo_loop show ?thesis
    by blast
qed

end
